theory Spec2Isabelle
  imports Main "HOL-Library.Sublist" "HOL-Library.Multiset"
begin

section \<open>Data model of \<open>main.py\<close>\<close>

text \<open>
  A \<open>WebSocket\<close> object is compared by identity (\<open>in\<close> and \<open>list.remove\<close> on
  \<open>active_connections\<close>), so a handle is modelled by a number that names the object.
  A task is a \<open>Dict[str, str]\<close>; Python dictionaries keep insertion order and their
  rendering depends on it, so a task is an association list. A character of a Python
  \<open>str\<close> is a code point; a \<open>char\<close> here stands for a code point below 256.
\<close>

type_synonym websocket = nat

type_synonym task = "(string \<times> string) list"

text \<open>
  The exceptions that the statements of the source and the methods of \<open>WebSocket\<close> it
  calls can raise. The source catches \<open>WebSocketDisconnect\<close> and nothing else.
\<close>

datatype py_error = ValueError | RuntimeError | KeyError | OSError | WebSocketDisconnect

text \<open>
  \<open>WebSocket\<close> is the class of the framework the source imports. Of each object the
  model keeps its field \<open>application_state\<close>, which \<open>accept\<close>, \<open>send_text\<close> and
  \<open>receive_text\<close> test and change; a new object is \<open>CONNECTING\<close>. Its other state
  field, \<open>client_state\<close>, leaves \<open>CONNECTING\<close> in the first \<open>accept\<close> and
  is \<open>DISCONNECTED\<close> only once the disconnect message has been read, after which the
  handler reads no more; so it decides nothing here.
\<close>

datatype WebSocketState = CONNECTING | CONNECTED | DISCONNECTED | RESPONSE

text \<open>
  What the server under the framework does with a message handed to it: it takes it, or
  it raises \<open>OSError\<close> because the peer is gone. And what it hands to a handler that
  waits for a message: a text frame, a frame with bytes only, or the disconnect message
  (sent for a clean close and for an abnormal one alike).
\<close>

datatype transport_result = Transport_ok | Transport_OSError

datatype asgi_message = Text_frame string | Bytes_frame | Disconnect_message

text \<open>The outcome of one \<open>send_text\<close> call.\<close>

datatype send_result = Sent | Raised py_error

text \<open>
  The two module-level globals, \<open>manager.active_connections\<close> and \<open>tasks\<close>; the
  \<open>application_state\<close> of every \<open>WebSocket\<close> object; and a trace of every
  \<open>send_text\<close> call made so far (handle, message, outcome), oldest first. The trace is
  what the clients observe; the source keeps no such list.
\<close>

record state =
  active_connections :: "websocket list"
  tasks :: "task list"
  application_state :: "websocket \<Rightarrow> WebSocketState"
  sent :: "(websocket \<times> string \<times> send_result) list"

text \<open>
  The network decides what the server does with each text message: \<open>net n c\<close> is the
  outcome for the \<open>send_text\<close> call number \<open>n\<close> of the run (counted from 0) when it
  goes to handle \<open>c\<close>.
\<close>

type_synonym network = "nat \<Rightarrow> websocket \<Rightarrow> transport_result"

text \<open>
  A call returns a value or raises, and leaves a state either way: what was changed
  before an exception stays changed.
\<close>

type_synonym 'a result = "(py_error + 'a) \<times> state"

definition and_then :: "'a result \<Rightarrow> ('a \<Rightarrow> state \<Rightarrow> 'b result) \<Rightarrow> 'b result" where
  "and_then r f = (case r of (Inl e, s) \<Rightarrow> (Inl e, s) | (Inr x, s) \<Rightarrow> f x s)"

section \<open>Built-in string operations the source calls\<close>

text \<open>\<open>str.startswith\<close>.\<close>

definition startswith :: "string \<Rightarrow> string \<Rightarrow> bool" where
  "startswith s p = (take (length p) s = p)"

text \<open>\<open>str.isspace\<close> of one character, for code points below 256.\<close>

definition isspace :: "char \<Rightarrow> bool" where
  "isspace c =
     (let n = (of_char c :: nat)
      in (9 \<le> n \<and> n \<le> 13) \<or> (28 \<le> n \<and> n \<le> 32) \<or> n = 133 \<or> n = 160)"

text \<open>\<open>str.strip()\<close>: leading and trailing whitespace removed.\<close>

definition strip :: "string \<Rightarrow> string" where
  "strip s = rev (dropWhile isspace (rev (dropWhile isspace s)))"

text \<open>\<open>str(n)\<close> of a non-negative integer: its decimal digits.\<close>

definition digit_char :: "nat \<Rightarrow> char" where
  "digit_char d = char_of (of_char (CHR ''0'') + d :: nat)"

fun str_nat :: "nat \<Rightarrow> string" where
  "str_nat n = (if n < 10 then [digit_char n] else str_nat (n div 10) @ [digit_char (n mod 10)])"

declare str_nat.simps [simp del]

text \<open>
  \<open>repr\<close> of a \<open>str\<close>: quoted with \<open>'\<close> unless the string holds a \<open>'\<close> and no
  \<open>"\<close>; the quote and the backslash are escaped, and so are the characters that are
  not printable.
\<close>

definition hex_char :: "nat \<Rightarrow> char" where
  "hex_char d = (if d < 10 then digit_char d else char_of (of_char (CHR ''a'') + (d - 10) :: nat))"

definition hex_escape :: "char \<Rightarrow> string" where
  "hex_escape c =
     (let n = (of_char c :: nat)
      in [CHR 0x5C, CHR ''x'', hex_char (n div 16), hex_char (n mod 16)])"

definition repr_char :: "char \<Rightarrow> char \<Rightarrow> string" where
  "repr_char q c =
     (let n = (of_char c :: nat)
      in if c = q \<or> c = CHR 0x5C then [CHR 0x5C, c]
         else if c = CHR 0x09 then [CHR 0x5C, CHR ''t'']
         else if c = CHR 0x0A then [CHR 0x5C, CHR ''n'']
         else if c = CHR 0x0D then [CHR 0x5C, CHR ''r'']
         else if n < 32 \<or> n = 127 then hex_escape c
         else if n < 127 then [c]
         else if n \<le> 160 \<or> n = 173 then hex_escape c
         else [c])"

definition repr_str :: "string \<Rightarrow> string" where
  "repr_str s =
     (let q = (if CHR 0x27 \<in> set s \<and> CHR 0x22 \<notin> set s then CHR 0x22 else CHR 0x27)
      in [q] @ concat (map (repr_char q) s) @ [q])"

text \<open>\<open>", ".join\<close>.\<close>

fun join_comma :: "string list \<Rightarrow> string" where
  "join_comma [] = []"
| "join_comma [x] = x"
| "join_comma (x # y # ys) = x @ '', '' @ join_comma (y # ys)"

text \<open>\<open>str\<close> of a \<open>Dict[str, str]\<close>, which is what \<open>f"{task}"\<close> renders.\<close>

definition str_dict :: "task \<Rightarrow> string" where
  "str_dict t = ''{'' @ join_comma (map (\<lambda>(k, v). repr_str k @ '': '' @ repr_str v) t) @ ''}''"

section \<open>The methods of \<open>WebSocket\<close> that the source calls\<close>

text \<open>
  \<open>accept\<close> sends the accept message: allowed only while the object is
  \<open>CONNECTING\<close>, which this very call ends before the message goes to the server;
  in every other state it raises \<open>RuntimeError\<close>. \<open>handshake\<close> is what the server
  does with the accept message.
\<close>

definition accept :: "transport_result \<Rightarrow> websocket \<Rightarrow> state \<Rightarrow> unit result" where
  "accept handshake websocket s =
     (if application_state s websocket = CONNECTING then
        (let s' = s\<lparr>application_state := (application_state s)(websocket := CONNECTED)\<rparr>
         in case handshake of
              Transport_ok \<Rightarrow> (Inr (), s')
            | Transport_OSError \<Rightarrow> (Inl OSError, s'))
      else (Inl RuntimeError, s))"

text \<open>
  \<open>send_text\<close>: allowed only while the object is \<open>CONNECTED\<close>, otherwise
  \<open>RuntimeError\<close>. An \<open>OSError\<close> of the server marks the object \<open>DISCONNECTED\<close>
  and is raised as \<open>WebSocketDisconnect\<close>.
\<close>

definition send_text :: "network \<Rightarrow> websocket \<Rightarrow> string \<Rightarrow> state \<Rightarrow> unit result" where
  "send_text net websocket data s =
     (if application_state s websocket = CONNECTED then
        (case net (length (sent s)) websocket of
           Transport_ok \<Rightarrow> (Inr (), s\<lparr>sent := sent s @ [(websocket, data, Sent)]\<rparr>)
         | Transport_OSError \<Rightarrow>
             (Inl WebSocketDisconnect,
              s\<lparr>application_state := (application_state s)(websocket := DISCONNECTED),
                sent := sent s @ [(websocket, data, Raised WebSocketDisconnect)]\<rparr>))
      else (Inl RuntimeError, s\<lparr>sent := sent s @ [(websocket, data, Raised RuntimeError)]\<rparr>))"

text \<open>
  \<open>receive_text\<close>: raises \<open>RuntimeError\<close> at once unless the object is
  \<open>CONNECTED\<close>; else it waits for the next message, raises \<open>WebSocketDisconnect\<close>
  on the disconnect message, and returns \<open>message["text"]\<close>, a \<open>KeyError\<close> when the
  frame holds bytes only.
\<close>

definition receive_text :: "asgi_message \<Rightarrow> websocket \<Rightarrow> state \<Rightarrow> string result" where
  "receive_text message websocket s =
     (if application_state s websocket \<noteq> CONNECTED then (Inl RuntimeError, s)
      else case message of
             Text_frame text \<Rightarrow> (Inr text, s)
           | Bytes_frame \<Rightarrow> (Inl KeyError, s)
           | Disconnect_message \<Rightarrow> (Inl WebSocketDisconnect, s))"

section \<open>ConnectionManager\<close>

text \<open>\<open>connect\<close>: \<open>await websocket.accept()\<close>, then \<open>active_connections.append(websocket)\<close>.\<close>

definition connect :: "transport_result \<Rightarrow> websocket \<Rightarrow> state \<Rightarrow> unit result" where
  "connect handshake websocket s =
     and_then (accept handshake websocket s)
       (\<lambda>u s'. (Inr (), s'\<lparr>active_connections := active_connections s' @ [websocket]\<rparr>))"

text \<open>\<open>list.remove(x)\<close>: removes the first occurrence, raises \<open>ValueError\<close> when there is none.\<close>

fun list_remove :: "'a \<Rightarrow> 'a list \<Rightarrow> py_error + 'a list" where
  "list_remove x [] = Inl ValueError"
| "list_remove x (y # ys) =
     (if y = x then Inr ys
      else case list_remove x ys of Inl e \<Rightarrow> Inl e | Inr zs \<Rightarrow> Inr (y # zs))"

text \<open>\<open>disconnect\<close>: the removal is guarded by the membership test.\<close>

definition disconnect :: "websocket \<Rightarrow> state \<Rightarrow> unit result" where
  "disconnect websocket s =
     (if websocket \<in> set (active_connections s)
      then (case list_remove websocket (active_connections s) of
              Inl e \<Rightarrow> (Inl e, s)
            | Inr cs \<Rightarrow> (Inr (), s\<lparr>active_connections := cs\<rparr>))
      else (Inr (), s))"

text \<open>
  The first loop of \<open>broadcast\<close>, over the copy \<open>list(self.active_connections)\<close>: one
  \<open>send_text\<close> per element; a \<open>WebSocketDisconnect\<close> is caught and the handle is
  appended to \<open>disconnected\<close>; any other exception leaves the loop and
  \<open>broadcast\<close>. The loop carries \<open>disconnected\<close> and the state.
\<close>

fun send_loop :: "network \<Rightarrow> string \<Rightarrow> websocket list \<Rightarrow> websocket list \<times> state
                    \<Rightarrow> websocket list result" where
  "send_loop net message [] (disconnected, s) = (Inr disconnected, s)"
| "send_loop net message (connection # rest) (disconnected, s) =
     (case send_text net connection message s of
        (Inr u, s') \<Rightarrow> send_loop net message rest (disconnected, s')
      | (Inl e, s') \<Rightarrow>
          if e = WebSocketDisconnect
          then send_loop net message rest (disconnected @ [connection], s')
          else (Inl e, s'))"

text \<open>The second loop: \<open>for websocket in disconnected: self.disconnect(websocket)\<close>.\<close>

fun cleanup :: "websocket list \<Rightarrow> state \<Rightarrow> unit result" where
  "cleanup [] s = (Inr (), s)"
| "cleanup (websocket # rest) s = and_then (disconnect websocket s) (\<lambda>u. cleanup rest)"

definition broadcast :: "network \<Rightarrow> string \<Rightarrow> state \<Rightarrow> unit result" where
  "broadcast net message s =
     and_then (send_loop net message (active_connections s) ([], s)) cleanup"

section \<open>Request handlers\<close>

text \<open>\<open>GET /tasks\<close>.\<close>

definition get_tasks :: "state \<Rightarrow> (string \<times> task list) list" where
  "get_tasks s = [(''tasks'', tasks s)]"

text \<open>\<open>POST /tasks\<close>: append, broadcast, respond.\<close>

definition add_task :: "network \<Rightarrow> task \<Rightarrow> state \<Rightarrow> (string \<times> string) list result" where
  "add_task net task s =
     and_then (broadcast net (''new_task:'' @ str_dict task) (s\<lparr>tasks := tasks s @ [task]\<rparr>))
       (\<lambda>u s'. (Inr [(''status'', ''task_added'')], s'))"

section \<open>The websocket handler\<close>

text \<open>The body of the \<open>while True\<close> loop once \<open>receive_text\<close> has returned \<open>data\<close>.\<close>

definition on_text :: "network \<Rightarrow> string \<Rightarrow> state \<Rightarrow> unit result" where
  "on_text net data s =
     (if startswith data ''add_task:'' then
        (let content = strip (drop (length ''add_task:'') data)
         in if content \<noteq> [] then
              (let task = [(''id'', str_nat (length (tasks s))), (''content'', content)]
               in broadcast net (''new_task:'' @ str_dict task) (s\<lparr>tasks := tasks s @ [task]\<rparr>))
            else (Inr (), s))
      else broadcast net (''message:'' @ data) s)"

text \<open>The body of the \<open>except WebSocketDisconnect\<close> branch.\<close>

definition on_disconnect :: "network \<Rightarrow> websocket \<Rightarrow> state \<Rightarrow> unit result" where
  "on_disconnect net websocket s =
     and_then (disconnect websocket s) (\<lambda>u. broadcast net ''A client disconnected'')"

text \<open>
  How the handler ends or goes on: \<open>OPEN\<close> when it waits in \<open>receive_text\<close>,
  \<open>CLOSED\<close> when the function has returned after its \<open>except\<close> branch. An
  exception that leaves the function is the \<open>Inl\<close> of the result.
\<close>

datatype phase = OPEN | CLOSED

text \<open>
  The \<open>try\<close> statement around the loop, for an exception \<open>e\<close> raised inside it: the
  branch runs for \<open>WebSocketDisconnect\<close>, every other exception leaves the function.
\<close>

definition except_WebSocketDisconnect :: "network \<Rightarrow> websocket \<Rightarrow> py_error \<Rightarrow> state \<Rightarrow> phase result" where
  "except_WebSocketDisconnect net websocket e s =
     (if e = WebSocketDisconnect
      then and_then (on_disconnect net websocket s) (\<lambda>u s'. (Inr CLOSED, s'))
      else (Inl e, s))"

text \<open>
  The loop is driven by the messages the server hands over; the feed is the list of
  them, in order. When the feed is used up the handler has called \<open>receive_text\<close>
  once more.
\<close>

fun receive_loop :: "network \<Rightarrow> websocket \<Rightarrow> asgi_message list \<Rightarrow> state \<Rightarrow> phase result" where
  "receive_loop net websocket [] s =
     (if application_state s websocket \<noteq> CONNECTED then (Inl RuntimeError, s)
      else (Inr OPEN, s))"
| "receive_loop net websocket (message # feed) s =
     (case receive_text message websocket s of
        (Inl e, s1) \<Rightarrow> except_WebSocketDisconnect net websocket e s1
      | (Inr data, s1) \<Rightarrow>
          (case on_text net data s1 of
             (Inl e, s2) \<Rightarrow> except_WebSocketDisconnect net websocket e s2
           | (Inr u, s2) \<Rightarrow> receive_loop net websocket feed s2))"


section \<open>The application as a whole\<close>

text \<open>
  What the server reacts to: a websocket handshake (the handler starts and registers the
  handle), a message handed to the handler of a handle that waits in \<open>receive_text\<close>,
  and the two REST calls on \<open>/tasks\<close>. Each reaction runs the code of its handler up to
  the next wait for a message, one handler at a time. An exception ends the handler or
  the request that raised it; the state it leaves stays, and the server goes on.
\<close>

datatype event =
    Connect websocket transport_result
  | Receive websocket asgi_message
  | Post task
  | Get

text \<open>A handler that waits has passed the test of \<open>receive_text\<close>; what follows the wait:\<close>

fun after_wait :: "network \<Rightarrow> websocket \<Rightarrow> asgi_message \<Rightarrow> state \<Rightarrow> phase result" where
  "after_wait net websocket (Text_frame data) s =
     (case on_text net data s of
        (Inl e, s') \<Rightarrow> except_WebSocketDisconnect net websocket e s'
      | (Inr u, s') \<Rightarrow> (Inr OPEN, s'))"
| "after_wait net websocket Bytes_frame s = except_WebSocketDisconnect net websocket KeyError s"
| "after_wait net websocket Disconnect_message s =
     except_WebSocketDisconnect net websocket WebSocketDisconnect s"

fun step :: "network \<Rightarrow> event \<Rightarrow> state \<Rightarrow> state" where
  "step net (Connect websocket handshake) s = snd (connect handshake websocket s)"
| "step net (Receive websocket message) s = snd (after_wait net websocket message s)"
| "step net (Post task) s = snd (add_task net task s)"
| "step net Get s = s"

fun run :: "network \<Rightarrow> event list \<Rightarrow> state \<Rightarrow> state" where
  "run net [] s = s"
| "run net (e # es) s = run net es (step net e s)"

text \<open>The state at the start of the process: nothing registered, no task, nothing sent.\<close>

definition initial :: state where
  "initial = \<lparr>active_connections = [], tasks = [],
              application_state = (\<lambda>websocket. CONNECTING), sent = []\<rparr>"

section \<open>Notions used to state the properties\<close>

text \<open>The \<open>send_text\<close> calls made between two states.\<close>

definition new_sends :: "state \<Rightarrow> state \<Rightarrow> (websocket \<times> string \<times> send_result) list" where
  "new_sends s s' = drop (length (sent s)) (sent s')"

definition recipients :: "(websocket \<times> string \<times> send_result) list \<Rightarrow> websocket list" where
  "recipients tr = map fst tr"

definition messages :: "(websocket \<times> string \<times> send_result) list \<Rightarrow> string list" where
  "messages tr = map (\<lambda>x. fst (snd x)) tr"


text \<open>The handles whose send raised \<open>WebSocketDisconnect\<close>, in the order of the calls.\<close>

definition failed :: "(websocket \<times> string \<times> send_result) list \<Rightarrow> websocket list" where
  "failed tr = map fst (filter (\<lambda>x. snd (snd x) = Raised WebSocketDisconnect) tr)"

text \<open>
  One pass over connected handles \<open>cs\<close> with message \<open>m\<close>, when \<open>n\<close> calls were
  made before it: the calls it makes and their outcomes.
\<close>

fun outcome :: "transport_result \<Rightarrow> send_result" where
  "outcome Transport_ok = Sent"
| "outcome Transport_OSError = Raised WebSocketDisconnect"

fun pass :: "network \<Rightarrow> string \<Rightarrow> nat \<Rightarrow> websocket list \<Rightarrow> (websocket \<times> string \<times> send_result) list" where
  "pass net m n [] = []"
| "pass net m n (c # cs) = (c, m, outcome (net n c)) # pass net m (Suc n) cs"

text \<open>The objects of the handles \<open>cs\<close> marked \<open>DISCONNECTED\<close>.\<close>

definition mark_disconnected :: "websocket list \<Rightarrow> (websocket \<Rightarrow> WebSocketState)
                                   \<Rightarrow> (websocket \<Rightarrow> WebSocketState)" where
  "mark_disconnected cs f = fold (\<lambda>c g. g(c := DISCONNECTED)) cs f"

text \<open>
  The registry as the handlers leave it when they run one at a time (\<open>run\<close> keeps it
  so): every handle is registered once and its object is \<open>CONNECTED\<close>.
\<close>

definition registry_ok :: "state \<Rightarrow> bool" where
  "registry_ok s =
     (distinct (active_connections s)
      \<and> list_all (\<lambda>c. application_state s c = CONNECTED) (active_connections s))"

text \<open>
  What every handler respects, whether it returns or raises: from \<open>s\<close> to \<open>s'\<close>
  no handle has joined the registry, the trace has only grown, every new send went to a
  handle registered in \<open>s\<close>, and an object has changed at most to \<open>DISCONNECTED\<close>.
  (\<open>connect\<close> is the one call that does otherwise.)
\<close>

definition extends :: "state \<Rightarrow> state \<Rightarrow> bool" where
  "extends s s' =
     (set (active_connections s') \<subseteq> set (active_connections s)
      \<and> prefix (sent s) (sent s')
      \<and> set (recipients (new_sends s s')) \<subseteq> set (active_connections s)
      \<and> (\<forall>x. application_state s' x = application_state s x
               \<or> application_state s' x = DISCONNECTED))"

text \<open>An event that creates a task, and the task it creates when the store holds \<open>n\<close> tasks.\<close>

fun creates :: "event \<Rightarrow> bool" where
  "creates (Post task) = True"
| "creates (Receive websocket (Text_frame data)) =
     (startswith data ''add_task:'' \<and> strip (drop (length ''add_task:'') data) \<noteq> [])"
| "creates e = False"

fun created :: "nat \<Rightarrow> event \<Rightarrow> task" where
  "created n (Post task) = task"
| "created n (Receive websocket (Text_frame data)) =
     [(''id'', str_nat n), (''content'', strip (drop (length ''add_task:'') data))]"
| "created n e = []"

fun created_all :: "nat \<Rightarrow> event list \<Rightarrow> task list" where
  "created_all n [] = []"
| "created_all n (e # es) = created n e # created_all (Suc n) es"


text \<open>
  Concrete surroundings for the examples: a server that takes every message, and objects
  that are all connected.
\<close>

definition reliable :: network where
  "reliable n c = Transport_ok"

definition all_connected :: "websocket \<Rightarrow> WebSocketState" where
  "all_connected c = CONNECTED"

text \<open>A server that has lost the peer of handle \<open>w\<close> and of no other.\<close>

definition peer_gone :: "websocket \<Rightarrow> network" where
  "peer_gone w n c = (if c = w then Transport_OSError else Transport_ok)"

section \<open>The two loops of \<open>broadcast\<close>\<close>

lemma list_remove_mem: "x \<in> set xs \<Longrightarrow> list_remove x xs = Inr (remove1 x xs)"
  by (induction xs) auto

lemma list_remove_absent: "x \<notin> set xs \<Longrightarrow> list_remove x xs = Inl ValueError"
  by (induction xs) auto

lemma disconnect_eq:
  "disconnect w s = (Inr (), s\<lparr>active_connections := remove1 w (active_connections s)\<rparr>)"
  by (simp add: disconnect_def list_remove_mem remove1_idem)

lemma cleanup_eq:
  "cleanup d s = (Inr (), s\<lparr>active_connections := fold remove1 d (active_connections s)\<rparr>)"
  by (induction d arbitrary: s) (simp_all add: disconnect_eq and_then_def)

lemma mset_fold_remove1: "mset (fold remove1 d xs) = mset xs - mset d"
  by (induction d arbitrary: xs) auto

lemma set_fold_remove1: "set (fold remove1 d xs) \<subseteq> set xs"
proof -
  have "set (fold remove1 d xs) = set_mset (mset xs - mset d)"
    by (simp flip: mset_fold_remove1)
  then show ?thesis by (auto dest: in_diffD)
qed

lemma distinct_fold_remove1: "distinct xs \<Longrightarrow> distinct (fold remove1 d xs)"
  by (induction d arbitrary: xs) auto

lemma fold_remove1_distinct:
  "distinct xs \<Longrightarrow> fold remove1 d xs = filter (\<lambda>x. x \<notin> set d) xs"
proof (induction d arbitrary: xs)
  case Nil
  then show ?case by simp
next
  case (Cons a d)
  then show ?case
    by (auto simp: distinct_remove1_removeAll removeAll_filter_not_eq intro!: filter_cong)
qed

lemma count_list_remove1: "count_list (remove1 w xs) w = count_list xs w - 1"
proof -
  have "count (mset (remove1 w xs)) w = count (mset xs) w - 1" by simp
  then show ?thesis by (simp only: count_mset)
qed

lemma recipients_pass: "recipients (pass net m n cs) = cs"
  by (induction cs arbitrary: n) (simp_all add: recipients_def)


lemma length_pass: "length (pass net m n cs) = length cs"
  by (induction cs arbitrary: n) simp_all



lemma failed_Cons:
  "failed ((c, m, r) # tr) = (if r = Raised WebSocketDisconnect then c # failed tr else failed tr)"
  by (simp add: failed_def)

lemma mark_disconnected_apply:
  "mark_disconnected cs f c = (if c \<in> set cs then DISCONNECTED else f c)"
  unfolding mark_disconnected_def by (induction cs arbitrary: f) auto

lemma mark_disconnected_Cons:
  "mark_disconnected (c # cs) f = mark_disconnected cs (f(c := DISCONNECTED))"
  by (simp add: mark_disconnected_def)

lemma mark_disconnected_Nil: "mark_disconnected [] f = f"
  by (simp add: mark_disconnected_def)

text \<open>Over handles that are connected and all different, the first loop runs to its end.\<close>

lemma send_loop_connected:
  assumes "distinct cs"
    and "list_all (\<lambda>c. application_state s c = CONNECTED) cs"
  shows "send_loop net m cs (d, s) =
     (Inr (d @ failed (pass net m (length (sent s)) cs)),
      s\<lparr>application_state :=
           mark_disconnected (failed (pass net m (length (sent s)) cs)) (application_state s),
         sent := sent s @ pass net m (length (sent s)) cs\<rparr>)"
  using assms
proof (induction cs arbitrary: d s)
  case Nil
  then show ?case by (simp add: failed_def mark_disconnected_Nil)
next
  case (Cons c cs)
  from Cons.prems have c: "application_state s c = CONNECTED"
    and rest: "list_all (\<lambda>x. application_state s x = CONNECTED) cs"
    and nc: "c \<notin> set cs" and dc: "distinct cs"
    by simp_all
  show ?case
  proof (cases "net (length (sent s)) c")
    case Transport_ok
    let ?s1 = "s\<lparr>sent := sent s @ [(c, m, Sent)]\<rparr>"
    have "list_all (\<lambda>x. application_state ?s1 x = CONNECTED) cs" using rest by simp
    from Cons.IH [OF dc this, of d] Transport_ok c show ?thesis
      by (simp add: send_text_def failed_Cons)
  next
    case Transport_OSError
    let ?s1 = "s\<lparr>application_state := (application_state s)(c := DISCONNECTED),
                 sent := sent s @ [(c, m, Raised WebSocketDisconnect)]\<rparr>"
    have "list_all (\<lambda>x. application_state ?s1 x = CONNECTED) cs"
      using rest nc by (auto simp: list_all_iff)
    from Cons.IH [OF dc this, of "d @ [c]"] Transport_OSError c show ?thesis
      by (simp add: send_text_def failed_Cons mark_disconnected_Cons fun_upd_def)
  qed
qed


section \<open>What every call keeps\<close>

text \<open>
  \<open>keeps s s'\<close>: from \<open>s\<close> to \<open>s'\<close> the registry and the store are the same, the
  trace has grown by \<open>tr\<close>, and an object has changed at most to \<open>DISCONNECTED\<close>.
\<close>

lemma send_text_keeps:
  "\<exists>r s' out. send_text net c m s = (r, s')
     \<and> active_connections s' = active_connections s \<and> tasks s' = tasks s
     \<and> sent s' = sent s @ [(c, m, out)]
     \<and> (\<forall>x. application_state s' x = application_state s x
              \<or> application_state s' x = DISCONNECTED)"
  by (cases "net (length (sent s)) c") (auto simp: send_text_def)

lemma send_loop_keeps:
  "\<exists>r s' tr. send_loop net m cs (d, s) = (r, s')
     \<and> active_connections s' = active_connections s \<and> tasks s' = tasks s
     \<and> sent s' = sent s @ tr
     \<and> prefix (recipients tr) cs
     \<and> messages tr = replicate (length tr) m
     \<and> (\<forall>x. application_state s' x = application_state s x
              \<or> application_state s' x = DISCONNECTED)
     \<and> (\<forall>d'. r = Inr d' \<longrightarrow> recipients tr = cs)"
proof (induction cs arbitrary: d s)
  case Nil
  then show ?case by (simp add: recipients_def messages_def)
next
  case (Cons c cs)
  from send_text_keeps [of net c m s] obtain r1 s1 out where
    st: "send_text net c m s = (r1, s1)"
    and a1: "active_connections s1 = active_connections s" and t1: "tasks s1 = tasks s"
    and m1: "sent s1 = sent s @ [(c, m, out)]"
    and p1: "\<forall>x. application_state s1 x = application_state s x
              \<or> application_state s1 x = DISCONNECTED"
    by blast
  show ?case
  proof (cases "r1 = Inl WebSocketDisconnect \<or> (\<exists>u. r1 = Inr u)")
    case False
    then obtain e where e: "r1 = Inl e" "e \<noteq> WebSocketDisconnect"
      by (cases r1) auto
    have "send_loop net m (c # cs) (d, s) = (Inl e, s1)" using st e by simp
    moreover have "prefix (recipients [(c, m, out)]) (c # cs)" by (simp add: recipients_def)
    moreover have "messages [(c, m, out)] = replicate (length [(c, m, out)]) m"
      by (simp add: messages_def)
    ultimately show ?thesis using a1 t1 m1 p1 by blast
  next
    case True
    then obtain d1 where go: "send_loop net m (c # cs) (d, s) = send_loop net m cs (d1, s1)"
      using st by (cases r1) auto
    from Cons.IH [of d1 s1] obtain r2 s2 tr2 where
      sl: "send_loop net m cs (d1, s1) = (r2, s2)"
      and a2: "active_connections s2 = active_connections s1" and t2: "tasks s2 = tasks s1"
      and m2: "sent s2 = sent s1 @ tr2"
      and r2: "prefix (recipients tr2) cs"
      and g2: "messages tr2 = replicate (length tr2) m"
      and p2: "\<forall>x. application_state s2 x = application_state s1 x
              \<or> application_state s2 x = DISCONNECTED"
      and f2: "\<forall>d'. r2 = Inr d' \<longrightarrow> recipients tr2 = cs"
      by blast
    have "send_loop net m (c # cs) (d, s) = (r2, s2)" using go sl by simp
    moreover have "active_connections s2 = active_connections s" using a1 a2 by simp
    moreover have "tasks s2 = tasks s" using t1 t2 by simp
    moreover have "sent s2 = sent s @ ((c, m, out) # tr2)" using m1 m2 by simp
    moreover have "prefix (recipients ((c, m, out) # tr2)) (c # cs)"
      using r2 by (simp add: recipients_def)
    moreover have "messages ((c, m, out) # tr2) = replicate (length ((c, m, out) # tr2)) m"
      using g2 by (simp add: messages_def)
    moreover have "\<forall>x. application_state s2 x = application_state s x
              \<or> application_state s2 x = DISCONNECTED"
      using p1 p2 by metis
    moreover have "\<forall>d'. r2 = Inr d' \<longrightarrow> recipients ((c, m, out) # tr2) = c # cs"
      using f2 by (simp add: recipients_def)
    ultimately show ?thesis by blast
  qed
qed

lemma broadcast_keeps:
  "\<exists>r s' tr. broadcast net m s = (r, s')
     \<and> set (active_connections s') \<subseteq> set (active_connections s) \<and> tasks s' = tasks s
     \<and> sent s' = sent s @ tr
     \<and> prefix (recipients tr) (active_connections s)
     \<and> messages tr = replicate (length tr) m
     \<and> (\<forall>x. application_state s' x = application_state s x
              \<or> application_state s' x = DISCONNECTED)
     \<and> (r = Inr () \<longrightarrow> recipients tr = active_connections s)"
proof -
  from send_loop_keeps [of net m "active_connections s" "[]" s] obtain r1 s1 tr where
    sl: "send_loop net m (active_connections s) ([], s) = (r1, s1)"
    and a1: "active_connections s1 = active_connections s" and t1: "tasks s1 = tasks s"
    and m1: "sent s1 = sent s @ tr"
    and r1: "prefix (recipients tr) (active_connections s)"
    and g1: "messages tr = replicate (length tr) m"
    and p1: "\<forall>x. application_state s1 x = application_state s x
              \<or> application_state s1 x = DISCONNECTED"
    and f1: "\<forall>d'. r1 = Inr d' \<longrightarrow> recipients tr = active_connections s"
    by blast
  show ?thesis
  proof (cases r1)
    case (Inl e)
    then have "broadcast net m s = (Inl e, s1)" using sl by (simp add: broadcast_def and_then_def)
    then show ?thesis using a1 t1 m1 r1 g1 p1 by auto
  next
    case (Inr d)
    let ?s' = "s1\<lparr>active_connections := fold remove1 d (active_connections s1)\<rparr>"
    have "broadcast net m s = (Inr (), ?s')"
      using sl Inr by (simp add: broadcast_def and_then_def cleanup_eq)
    moreover have "set (active_connections ?s') \<subseteq> set (active_connections s)"
      using set_fold_remove1 [of d "active_connections s1"] a1 by simp
    moreover have "recipients tr = active_connections s" using f1 Inr by simp
    ultimately show ?thesis using t1 m1 r1 g1 p1 by auto
  qed
qed




lemma new_sends_append: "new_sends s (s'\<lparr>sent := sent s @ tr\<rparr>) = tr"
  by (simp add: new_sends_def)

lemma new_sends_trans:
  "prefix (sent s) (sent s1) \<Longrightarrow> prefix (sent s1) (sent s2) \<Longrightarrow>
     new_sends s s2 = new_sends s s1 @ new_sends s1 s2"
  by (auto simp: new_sends_def prefix_def)

lemma extends_refl: "extends s s"
  by (simp add: extends_def new_sends_def recipients_def)

lemma extends_trans:
  assumes "extends s s1" and "extends s1 s2"
  shows "extends s s2"
proof -
  have p: "prefix (sent s) (sent s1)" "prefix (sent s1) (sent s2)"
    using assms by (simp_all add: extends_def)
  have "set (recipients (new_sends s s2))
      = set (recipients (new_sends s s1)) \<union> set (recipients (new_sends s1 s2))"
    by (simp add: new_sends_trans [OF p] recipients_def)
  moreover have "\<forall>x. application_state s2 x = application_state s x
               \<or> application_state s2 x = DISCONNECTED"
    using assms unfolding extends_def by metis
  ultimately show ?thesis using assms p unfolding extends_def by (auto intro: prefix_order.trans)
qed

lemma extends_registry:
  "set cs \<subseteq> set (active_connections s) \<Longrightarrow> extends s (s\<lparr>active_connections := cs\<rparr>)"
  by (simp add: extends_def new_sends_def recipients_def)

lemma extends_tasks: "extends s (s\<lparr>tasks := ts\<rparr>)"
  by (simp add: extends_def new_sends_def recipients_def)

lemma broadcast_extends:
  "extends s (snd (broadcast net m s)) \<and> tasks (snd (broadcast net m s)) = tasks s"
proof -
  from broadcast_keeps [of net m s] obtain r s' tr where
    "broadcast net m s = (r, s')"
    and "set (active_connections s') \<subseteq> set (active_connections s)" and "tasks s' = tasks s"
    and "sent s' = sent s @ tr"
    and "prefix (recipients tr) (active_connections s)"
    and "\<forall>x. application_state s' x = application_state s x
              \<or> application_state s' x = DISCONNECTED"
    by blast
  then show ?thesis
    by (auto simp: extends_def new_sends_def dest: set_mono_prefix)
qed

section \<open>The loop body and the handlers\<close>

lemma on_text_add:
  assumes "startswith data ''add_task:''"
    and "strip (drop (length ''add_task:'') data) \<noteq> []"
  shows "on_text net data s =
           broadcast net
             (''new_task:'' @ str_dict [(''id'', str_nat (length (tasks s))),
                                       (''content'', strip (drop (length ''add_task:'') data))])
             (s\<lparr>tasks := tasks s @ [[(''id'', str_nat (length (tasks s))),
                                      (''content'', strip (drop (length ''add_task:'') data))]]\<rparr>)"
  using assms unfolding on_text_def Let_def by simp

lemma on_text_blank:
  assumes "startswith data ''add_task:''"
    and "strip (drop (length ''add_task:'') data) = []"
  shows "on_text net data s = (Inr (), s)"
  using assms unfolding on_text_def Let_def by simp

lemma on_text_other:
  assumes "\<not> startswith data ''add_task:''"
  shows "on_text net data s = broadcast net (''message:'' @ data) s"
  using assms unfolding on_text_def by simp

lemma on_disconnect_eq:
  "on_disconnect net w s =
     broadcast net ''A client disconnected''
       (s\<lparr>active_connections := remove1 w (active_connections s)\<rparr>)"
  by (simp add: on_disconnect_def disconnect_eq and_then_def)

lemma on_text_extends:
  "extends s (snd (on_text net data s))
   \<and> tasks (snd (on_text net data s)) =
       tasks s @ (if creates (Receive w (Text_frame data))
                  then [created (length (tasks s)) (Receive w (Text_frame data))] else [])"
proof (cases "startswith data ''add_task:''")
  case pre: True
  show ?thesis
  proof (cases "strip (drop (length ''add_task:'') data) = []")
    case True
    with pre show ?thesis by (simp add: on_text_blank extends_refl)
  next
    case False
    let ?t = "[(''id'', str_nat (length (tasks s))),
               (''content'', strip (drop (length ''add_task:'') data))]"
    let ?s1 = "s\<lparr>tasks := tasks s @ [?t]\<rparr>"
    let ?m = "''new_task:'' @ str_dict ?t"
    have "extends s ?s1" by (rule extends_tasks)
    moreover have "extends ?s1 (snd (broadcast net ?m ?s1))"
      and "tasks (snd (broadcast net ?m ?s1)) = tasks ?s1"
      using broadcast_extends [of ?s1 net ?m] by simp_all
    ultimately show ?thesis using pre False
      by (auto simp: on_text_add intro: extends_trans)
  qed
next
  case False
  then show ?thesis using broadcast_extends [of s net "''message:'' @ data"]
    by (simp add: on_text_other)
qed

lemma on_disconnect_extends:
  "extends s (snd (on_disconnect net w s)) \<and> tasks (snd (on_disconnect net w s)) = tasks s"
proof -
  let ?s1 = "s\<lparr>active_connections := remove1 w (active_connections s)\<rparr>"
  have "extends s ?s1" by (rule extends_registry) (rule set_remove1_subset)
  moreover have "extends ?s1 (snd (broadcast net ''A client disconnected'' ?s1))"
    and "tasks (snd (broadcast net ''A client disconnected'' ?s1)) = tasks ?s1"
    using broadcast_extends [of ?s1 net "''A client disconnected''"] by simp_all
  ultimately show ?thesis by (auto simp: on_disconnect_eq intro: extends_trans)
qed

lemma except_extends:
  "extends s (snd (except_WebSocketDisconnect net w e s))
   \<and> tasks (snd (except_WebSocketDisconnect net w e s)) = tasks s"
proof (cases "e = WebSocketDisconnect")
  case True
  obtain r s' where od: "on_disconnect net w s = (r, s')" by (cases "on_disconnect net w s")
  with on_disconnect_extends [of s net w] have "extends s s'" "tasks s' = tasks s" by simp_all
  with True od show ?thesis
    by (cases r) (simp_all add: except_WebSocketDisconnect_def and_then_def)
next
  case False
  then show ?thesis by (simp add: except_WebSocketDisconnect_def extends_refl)
qed

lemma after_wait_extends:
  "extends s (snd (after_wait net w message s))
   \<and> tasks (snd (after_wait net w message s)) =
       tasks s @ (if creates (Receive w message)
                  then [created (length (tasks s)) (Receive w message)] else [])"
proof (cases message)
  case (Text_frame data)
  obtain r s1 where ot: "on_text net data s = (r, s1)" by (cases "on_text net data s")
  with on_text_extends [of s net data w] have e1: "extends s s1"
    and t1: "tasks s1 = tasks s @ (if creates (Receive w (Text_frame data))
                  then [created (length (tasks s)) (Receive w (Text_frame data))] else [])"
    by simp_all
  show ?thesis
  proof (cases r)
    case (Inl e)
    from except_extends [of s1 net w e] e1 t1 Text_frame ot Inl show ?thesis
      by (auto intro: extends_trans)
  next
    case (Inr u)
    with e1 t1 Text_frame ot show ?thesis by simp
  qed
next
  case Bytes_frame
  then show ?thesis using except_extends [of s net w KeyError] by simp
next
  case Disconnect_message
  then show ?thesis using except_extends [of s net w WebSocketDisconnect] by simp
qed

lemma add_task_extends:
  "extends s (snd (add_task net task s)) \<and> tasks (snd (add_task net task s)) = tasks s @ [task]"
proof -
  let ?s1 = "s\<lparr>tasks := tasks s @ [task]\<rparr>"
  let ?m = "''new_task:'' @ str_dict task"
  obtain r s' where b: "broadcast net ?m ?s1 = (r, s')" by (cases "broadcast net ?m ?s1")
  have "extends s ?s1" by (rule extends_tasks)
  moreover from broadcast_extends [of ?s1 net ?m] b
  have "extends ?s1 s'" "tasks s' = tasks ?s1" by simp_all
  ultimately have "extends s s'" "tasks s' = tasks s @ [task]"
    by (auto intro: extends_trans)
  with b show ?thesis by (cases r) (simp_all add: add_task_def and_then_def)
qed

section \<open>Handshakes\<close>

lemma connect_new:
  "application_state s w = CONNECTING \<Longrightarrow>
     connect Transport_ok w s =
       (Inr (), s\<lparr>active_connections := active_connections s @ [w],
                  application_state := (application_state s)(w := CONNECTED)\<rparr>)"
  by (simp add: connect_def accept_def and_then_def)

lemma connect_refused:
  "application_state s w = CONNECTING \<Longrightarrow>
     connect Transport_OSError w s =
       (Inl OSError, s\<lparr>application_state := (application_state s)(w := CONNECTED)\<rparr>)"
  by (simp add: connect_def accept_def and_then_def)

lemma connect_again:
  "application_state s w \<noteq> CONNECTING \<Longrightarrow> connect handshake w s = (Inl RuntimeError, s)"
  by (simp add: connect_def accept_def and_then_def)

lemma connect_effect:
  "tasks (snd (connect handshake w s)) = tasks s
   \<and> sent (snd (connect handshake w s)) = sent s
   \<and> (\<forall>x. x \<in> set (active_connections (snd (connect handshake w s))) \<longrightarrow>
            x \<in> set (active_connections s) \<or> application_state s x = CONNECTING)
   \<and> (\<forall>x. application_state (snd (connect handshake w s)) x \<noteq> CONNECTING
            \<or> application_state s x = CONNECTING)
   \<and> application_state (snd (connect handshake w s)) w \<noteq> CONNECTING"
proof (cases "application_state s w = CONNECTING")
  case True
  then show ?thesis
    by (cases handshake) (auto simp: connect_new connect_refused)
next
  case False
  then show ?thesis by (simp add: connect_again)
qed

section \<open>Events and runs\<close>

lemma extends_effect:
  assumes "extends s s'"
  shows "prefix (sent s) (sent s')
   \<and> set (recipients (new_sends s s')) \<subseteq> set (active_connections s)
   \<and> (\<forall>x. x \<in> set (active_connections s') \<longrightarrow>
            x \<in> set (active_connections s) \<or> application_state s x = CONNECTING)
   \<and> (\<forall>x. application_state s' x \<noteq> CONNECTING
            \<or> application_state s x = CONNECTING)"
proof -
  have "application_state s' x \<noteq> CONNECTING \<or> application_state s x = CONNECTING" for x
  proof -
    from assms have "application_state s' x = application_state s x
               \<or> application_state s' x = DISCONNECTED"
      unfolding extends_def by blast
    then show ?thesis by auto
  qed
  moreover have "x \<in> set (active_connections s') \<longrightarrow>
            x \<in> set (active_connections s) \<or> application_state s x = CONNECTING" for x
    using assms unfolding extends_def by blast
  ultimately show ?thesis using assms unfolding extends_def by blast
qed

lemma step_effect:
  "tasks (step net e s) =
     tasks s @ (if creates e then [created (length (tasks s)) e] else [])
   \<and> prefix (sent s) (sent (step net e s))
   \<and> set (recipients (new_sends s (step net e s))) \<subseteq> set (active_connections s)
   \<and> (\<forall>x. x \<in> set (active_connections (step net e s)) \<longrightarrow>
            x \<in> set (active_connections s) \<or> application_state s x = CONNECTING)
   \<and> (\<forall>x. application_state (step net e s) x \<noteq> CONNECTING
            \<or> application_state s x = CONNECTING)"
proof (cases e)
  case (Connect w handshake)
  with connect_effect [of handshake w s] show ?thesis
    by (simp add: new_sends_def recipients_def)
next
  case (Receive w message)
  from after_wait_extends [of s net w message]
  have ex: "extends s (snd (after_wait net w message s))"
    and ts: "tasks (snd (after_wait net w message s)) =
       tasks s @ (if creates (Receive w message)
                  then [created (length (tasks s)) (Receive w message)] else [])"
    by blast+
  from extends_effect [OF ex] ts Receive show ?thesis by simp
next
  case (Post task)
  from add_task_extends [of s net task]
  have ex: "extends s (snd (add_task net task s))"
    and ts: "tasks (snd (add_task net task s)) = tasks s @ [task]"
    by blast+
  from extends_effect [OF ex] ts Post show ?thesis by simp
next
  case Get
  then show ?thesis by (simp add: new_sends_def recipients_def)
qed

lemma run_tasks:
  "tasks (run net evs s) = tasks s @ created_all (length (tasks s)) (filter creates evs)"
proof (induction evs arbitrary: s)
  case Nil
  then show ?case by simp
next
  case (Cons e es)
  have "tasks (step net e s) =
     tasks s @ (if creates e then [created (length (tasks s)) e] else [])"
    using step_effect [of net e s] by blast
  with Cons [of "step net e s"] show ?case by simp
qed



section \<open>The registry the handlers keep\<close>

lemma broadcast_ok:
  assumes "registry_ok s"
  shows "broadcast net m s =
     (Inr (),
      s\<lparr>active_connections :=
           filter (\<lambda>c. c \<notin> set (failed (pass net m (length (sent s)) (active_connections s))))
             (active_connections s),
         application_state :=
           mark_disconnected (failed (pass net m (length (sent s)) (active_connections s)))
             (application_state s),
         sent := sent s @ pass net m (length (sent s)) (active_connections s)\<rparr>)"
  using assms
  by (simp add: registry_ok_def broadcast_def and_then_def send_loop_connected cleanup_eq
      fold_remove1_distinct)

lemma registry_ok_broadcast:
  assumes "registry_ok s"
  shows "registry_ok (snd (broadcast net m s))"
  using assms
  by (auto simp: broadcast_ok registry_ok_def list_all_iff mark_disconnected_apply)

lemma registry_ok_remove1:
  "registry_ok s \<Longrightarrow> registry_ok (s\<lparr>active_connections := remove1 w (active_connections s)\<rparr>)"
  by (auto simp: registry_ok_def list_all_iff dest: notin_set_remove1)

lemma registry_ok_tasks: "registry_ok s \<Longrightarrow> registry_ok (s\<lparr>tasks := ts\<rparr>)"
  by (simp add: registry_ok_def)

lemma registry_ok_on_text: "registry_ok s \<Longrightarrow> registry_ok (snd (on_text net data s))"
  by (auto simp: on_text_def Let_def intro: registry_ok_broadcast registry_ok_tasks)

lemma registry_ok_on_disconnect:
  "registry_ok s \<Longrightarrow> registry_ok (snd (on_disconnect net w s))"
  by (simp add: on_disconnect_eq registry_ok_broadcast registry_ok_remove1)

lemma registry_ok_except:
  "registry_ok s \<Longrightarrow> registry_ok (snd (except_WebSocketDisconnect net w e s))"
proof -
  assume ok: "registry_ok s"
  obtain r s' where od: "on_disconnect net w s = (r, s')" by (cases "on_disconnect net w s")
  with registry_ok_on_disconnect [OF ok, of net w] have "registry_ok s'" by simp
  with od ok show ?thesis
    by (cases r) (simp_all add: except_WebSocketDisconnect_def and_then_def)
qed

lemma registry_ok_step:
  assumes "registry_ok s"
  shows "registry_ok (step net e s)"
proof (cases e)
  case (Connect w handshake)
  show ?thesis
  proof (cases "application_state s w = CONNECTING")
    case True
    then have "w \<notin> set (active_connections s)"
      using assms by (auto simp: registry_ok_def list_all_iff)
    with True assms Connect show ?thesis
      by (cases handshake) (auto simp: connect_new connect_refused registry_ok_def list_all_iff)
  next
    case False
    with assms Connect show ?thesis by (simp add: connect_again)
  qed
next
  case (Receive w message)
  show ?thesis
  proof (cases message)
    case (Text_frame data)
    obtain r s1 where ot: "on_text net data s = (r, s1)" by (cases "on_text net data s")
    with registry_ok_on_text [OF assms, of net data] have "registry_ok s1" by simp
    with ot Receive Text_frame show ?thesis
      by (cases r) (simp_all add: registry_ok_except)
  next
    case Bytes_frame
    with Receive assms show ?thesis by (simp add: registry_ok_except)
  next
    case Disconnect_message
    with Receive assms show ?thesis by (simp add: registry_ok_except)
  qed
next
  case (Post task)
  let ?s1 = "s\<lparr>tasks := tasks s @ [task]\<rparr>"
  obtain r s' where b: "broadcast net (''new_task:'' @ str_dict task) ?s1 = (r, s')"
    by (cases "broadcast net (''new_task:'' @ str_dict task) ?s1")
  have "registry_ok ?s1" by (rule registry_ok_tasks [OF assms])
  then have "registry_ok (snd (broadcast net (''new_task:'' @ str_dict task) ?s1))"
    by (rule registry_ok_broadcast)
  with b have "registry_ok s'" by simp
  with b Post show ?thesis by (cases r) (simp_all add: add_task_def and_then_def)
next
  case Get
  with assms show ?thesis by simp
qed

lemma registry_ok_run: "registry_ok s \<Longrightarrow> registry_ok (run net evs s)"
  by (induction evs arbitrary: s) (simp_all add: registry_ok_step)

lemma registry_ok_initial: "registry_ok initial"
  by (simp add: registry_ok_def initial_def)

section \<open>Strings\<close>






lemma strip_eval2: "strip ''  write report  '' = ''write report''"
  by code_simp

text \<open>
  The two renderings of the examples: \<open>{'id': '0', 'content': 'write report'}\<close> and
  \<open>{'name': 'buy milk'}\<close>; and a value with a quote, which switches the delimiter.
\<close>

lemma str_dict_write_report:
  "str_dict [(''id'', ''0''), (''content'', ''write report'')] =
     ''{'' @ [CHR 0x27] @ ''id'' @ [CHR 0x27] @ '': '' @ [CHR 0x27] @ ''0'' @ [CHR 0x27] @ '', ''
       @ [CHR 0x27] @ ''content'' @ [CHR 0x27] @ '': '' @ [CHR 0x27] @ ''write report''
       @ [CHR 0x27] @ ''}''"
  by code_simp

lemma str_dict_buy_milk:
  "str_dict [(''name'', ''buy milk'')] =
     ''{'' @ [CHR 0x27] @ ''name'' @ [CHR 0x27] @ '': '' @ [CHR 0x27] @ ''buy milk''
       @ [CHR 0x27] @ ''}''"
  by code_simp

lemma repr_str_quote:
  "repr_str (''it'' @ [CHR 0x27] @ ''s'') = [CHR 0x22] @ ''it'' @ [CHR 0x27] @ ''s'' @ [CHR 0x22]"
  by code_simp






text \<open>
  How a registered handle comes to have an object that is not \<open>CONNECTED\<close>: a pass
  \<open>a\<close> sends to handles 1 and 2, the send to 2 raises \<open>WebSocketDisconnect\<close>, and
  the pass waits in its next \<open>await\<close> with 2 only scheduled for removal.
\<close>

lemma pass_under_way:
  "send_loop (peer_gone 2) ''a'' (take 2 [1, 2, 3])
     ([], \<lparr>active_connections = [1, 2, 3], tasks = [],
           application_state = all_connected, sent = []\<rparr>)
   = (Inr [2],
      \<lparr>active_connections = [1, 2, 3], tasks = [],
       application_state = all_connected(2 := DISCONNECTED),
       sent = [(1, ''a'', Sent), (2, ''a'', Raised WebSocketDisconnect)]\<rparr>)"
  by (simp add: send_text_def peer_gone_def all_connected_def numeral_2_eq_2)

text \<open>
  The other route: the send to the handler's own handle raised, the pass removed the
  handle, and the next \<open>receive_text\<close> raises \<open>RuntimeError\<close>, although the next
  message is the disconnect message.
\<close>

lemma own_send_failure_ends_handler:
  "receive_loop (peer_gone 2) 2 [Text_frame ''hi'', Disconnect_message]
     \<lparr>active_connections = [1, 2], tasks = [], application_state = all_connected, sent = []\<rparr>
   = (Inl RuntimeError,
      \<lparr>active_connections = [1], tasks = [],
       application_state = all_connected(2 := DISCONNECTED),
       sent = [(1, ''message:hi'', Sent), (2, ''message:hi'', Raised WebSocketDisconnect)]\<rparr>)"
  by (simp add: receive_text_def except_WebSocketDisconnect_def on_text_def startswith_def
      broadcast_def and_then_def send_text_def disconnect_eq peer_gone_def all_connected_def)

section \<open>Examples\<close>

text \<open>
  A handle twice in the registry, which the handlers never build: the send to the second
  occurrence finds the object \<open>DISCONNECTED\<close> by the first, and the pass ends there.
\<close>

lemma broadcast_duplicate_handle:
  "broadcast (peer_gone 7) m
     \<lparr>active_connections = [7, 7], tasks = [], application_state = all_connected, sent = []\<rparr>
   = (Inl RuntimeError,
      \<lparr>active_connections = [7, 7], tasks = [],
       application_state = all_connected(7 := DISCONNECTED),
       sent = [(7, m, Raised WebSocketDisconnect), (7, m, Raised RuntimeError)]\<rparr>)"
  by (simp add: broadcast_def and_then_def send_text_def peer_gone_def all_connected_def)

text \<open>
  From the start of the process, with the handlers run one at a time, every handle is
  registered once and its object is \<open>CONNECTED\<close>; from such a registry no pass raises.
\<close>

lemma run_from_initial: "registry_ok (run net evs initial)"
  by (rule registry_ok_run [OF registry_ok_initial])

section \<open>The properties\<close>
















text \<open>
  Claim C7. A text frame that starts with \<open>add_task:\<close> and whose remainder is empty
  once stripped: the state is unchanged (no task, no \<open>send_text\<close> call, so nothing
  is reported to the sender), no exception is raised, and the handler goes on to the
  next frame.
\<close>

theorem blank_add_task_frame_does_nothing:
  assumes "startswith data ''add_task:''"
    and "strip (drop (length ''add_task:'') data) = []"
  shows "on_text net data s = (Inr (), s)
         \<and> new_sends s s = []
         \<and> receive_loop net websocket (Text_frame data # feed) s
             = receive_loop net websocket feed s"
proof -
  have "receive_loop net websocket (Text_frame data # feed) s
             = receive_loop net websocket feed s"
  proof (cases "application_state s websocket = CONNECTED")
    case True
    then show ?thesis by (simp add: receive_text_def on_text_blank [OF assms])
  next
    case False
    then show ?thesis
      by (cases feed) (simp_all add: receive_text_def except_WebSocketDisconnect_def)
  qed
  then show ?thesis by (simp add: on_text_blank [OF assms] new_sends_def)
qed

theorem blank_add_task_frame_does_nothing_witness:
  "startswith ''add_task:'' ''add_task:''
   \<and> strip (drop (length ''add_task:'') ''add_task:'') = []
   \<and> startswith ''add_task:   '' ''add_task:''
   \<and> strip (drop (length ''add_task:'') ''add_task:   '') = []
   \<and> on_text reliable ''add_task:''
        \<lparr>active_connections = [1, 2], tasks = [], application_state = all_connected, sent = []\<rparr>
       = (Inr (), \<lparr>active_connections = [1, 2], tasks = [],
                   application_state = all_connected, sent = []\<rparr>)
   \<and> on_text reliable ''add_task:   ''
        \<lparr>active_connections = [1, 2], tasks = [], application_state = all_connected, sent = []\<rparr>
       = (Inr (), \<lparr>active_connections = [1, 2], tasks = [],
                   application_state = all_connected, sent = []\<rparr>)"
proof -
  let ?s = "\<lparr>active_connections = [1, 2], tasks = [],
             application_state = all_connected, sent = []\<rparr>"
  have a1: "startswith ''add_task:'' ''add_task:''" by (simp add: startswith_def)
  have a2: "strip (drop (length ''add_task:'') ''add_task:'') = []" by (simp add: strip_def)
  have b1: "startswith ''add_task:   '' ''add_task:''" by (simp add: startswith_def)
  have b2: "strip (drop (length ''add_task:'') ''add_task:   '') = []" by code_simp
  from blank_add_task_frame_does_nothing [OF a1 a2, of reliable ?s 1 "[]"]
  have a3: "on_text reliable ''add_task:'' ?s = (Inr (), ?s)" by (rule conjunct1)
  from blank_add_task_frame_does_nothing [OF b1 b2, of reliable ?s 1 "[]"]
  have b3: "on_text reliable ''add_task:   '' ?s = (Inr (), ?s)" by (rule conjunct1)
  from a1 a2 b1 b2 a3 b3 show ?thesis by (intro conjI)
qed

text \<open>
  Claim C8. After any run of events from any state, whether handlers raised or not, the
  store is the old store followed by the tasks of the task-creating events, in the order
  of the events: nothing is removed or reordered, and \<open>N\<close> task-creating calls from a
  store of length \<open>K\<close> give a store of length \<open>K + N\<close>.
\<close>

theorem store_grows_in_call_order:
  "tasks (run net evs s) = tasks s @ created_all (length (tasks s)) (filter creates evs)
   \<and> prefix (tasks s) (tasks (run net evs s))
   \<and> length (tasks (run net evs s)) = length (tasks s) + length (filter creates evs)
   \<and> (list_all creates evs \<longrightarrow>
         tasks (run net evs s) = tasks s @ created_all (length (tasks s)) evs
         \<and> length (tasks (run net evs s)) = length (tasks s) + length evs)"
proof -
  have len: "length (created_all n es) = length es" for n es
    by (induction es arbitrary: n) simp_all
  have all: "list_all creates evs \<Longrightarrow> filter creates evs = evs"
    by (simp add: list_all_iff)
  show ?thesis using len all by (auto simp: run_tasks)
qed

theorem store_grows_in_call_order_witness:
  "list_all creates [Post [(''name'', ''buy milk'')], Receive 1 (Text_frame ''add_task:  write report  '')]
   \<and> tasks (run reliable
              [Post [(''name'', ''buy milk'')], Receive 1 (Text_frame ''add_task:  write report  '')]
              \<lparr>active_connections = [1], tasks = [[(''id'', ''0''), (''content'', ''x'')]],
               application_state = all_connected, sent = []\<rparr>)
       = [[(''id'', ''0''), (''content'', ''x'')],
          [(''name'', ''buy milk'')],
          [(''id'', ''2''), (''content'', ''write report'')]]"
proof -
  let ?s = "\<lparr>active_connections = [1], tasks = [[(''id'', ''0''), (''content'', ''x'')]],
             application_state = all_connected, sent = []\<rparr>"
  let ?evs = "[Post [(''name'', ''buy milk'')], Receive 1 (Text_frame ''add_task:  write report  '')]"
  have two: "str_nat (Suc (Suc 0)) = ''2''" by code_simp
  have h: "list_all creates ?evs"
    by (simp add: startswith_def strip_eval2)
  note four = store_grows_in_call_order [of reliable ?evs ?s, THEN conjunct2, THEN conjunct2,
      THEN conjunct2]
  from four
  have "list_all creates ?evs \<longrightarrow>
         tasks (run reliable ?evs ?s) = tasks ?s @ created_all (length (tasks ?s)) ?evs
         \<and> length (tasks (run reliable ?evs ?s)) = length (tasks ?s) + length ?evs" .
  with h have "tasks (run reliable ?evs ?s) = tasks ?s @ created_all (length (tasks ?s)) ?evs"
    by blast
  then have "tasks (run reliable ?evs ?s) = [[(''id'', ''0''), (''content'', ''x'')],
          [(''name'', ''buy milk'')],
          [(''id'', ''2''), (''content'', ''write report'')]]"
    by (simp add: strip_eval2 two)
  with h show ?thesis by (intro conjI)
qed

text \<open>
  Claim C9. \<open>disconnect\<close> never raises. With a handle that is not registered it
  leaves the state as it is; with a registered handle it removes the first occurrence of
  the handle and nothing else, so a handle registered once is no longer a member.
\<close>

theorem disconnect_present_or_absent:
  "(w \<notin> set (active_connections s) \<longrightarrow> disconnect w s = (Inr (), s)) \<and>
   (w \<in> set (active_connections s) \<longrightarrow>
      (\<exists>s'. disconnect w s = (Inr (), s')
         \<and> active_connections s' = remove1 w (active_connections s)
         \<and> count_list (active_connections s') w + 1 = count_list (active_connections s) w
         \<and> length (active_connections s') + 1 = length (active_connections s)
         \<and> tasks s' = tasks s \<and> sent s' = sent s
         \<and> application_state s' = application_state s
         \<and> (distinct (active_connections s) \<longrightarrow> w \<notin> set (active_connections s'))))"
proof (intro conjI impI)
  assume "w \<notin> set (active_connections s)"
  then show "disconnect w s = (Inr (), s)" by (simp add: disconnect_def)
next
  assume mem: "w \<in> set (active_connections s)"
  then have pos: "0 < count_list (active_connections s) w"
    by (metis count_list_0_iff gr0I)
  have "0 < length (active_connections s)" using mem by (cases "active_connections s") auto
  with mem pos show "\<exists>s'. disconnect w s = (Inr (), s')
         \<and> active_connections s' = remove1 w (active_connections s)
         \<and> count_list (active_connections s') w + 1 = count_list (active_connections s) w
         \<and> length (active_connections s') + 1 = length (active_connections s)
         \<and> tasks s' = tasks s \<and> sent s' = sent s
         \<and> application_state s' = application_state s
         \<and> (distinct (active_connections s) \<longrightarrow> w \<notin> set (active_connections s'))"
    by (simp add: disconnect_eq count_list_remove1 length_remove1)
qed

theorem disconnect_present_or_absent_witness:
  "5 \<notin> set (active_connections \<lparr>active_connections = [1, 2, 3], tasks = [],
                 application_state = all_connected, sent = []\<rparr>)
   \<and> disconnect 5 \<lparr>active_connections = [1, 2, 3], tasks = [],
                 application_state = all_connected, sent = []\<rparr>
     = (Inr (), \<lparr>active_connections = [1, 2, 3], tasks = [],
                 application_state = all_connected, sent = []\<rparr>)
   \<and> 2 \<in> set (active_connections \<lparr>active_connections = [1, 2, 3], tasks = [],
                 application_state = all_connected, sent = []\<rparr>)
   \<and> (\<exists>s'. disconnect 2 \<lparr>active_connections = [1, 2, 3], tasks = [],
                 application_state = all_connected, sent = []\<rparr> = (Inr (), s')
          \<and> active_connections s' = [1, 3])"
proof -
  let ?s = "\<lparr>active_connections = [1, 2, 3], tasks = [],
             application_state = all_connected, sent = []\<rparr>"
  note T = disconnect_present_or_absent
  have a: "5 \<notin> set (active_connections ?s)" by simp
  have p: "2 \<in> set (active_connections ?s)" by simp
  have one: "disconnect 5 ?s = (Inr (), ?s)"
    by (rule mp [OF conjunct1 [OF T [where s = ?s and w = 5]] a])
  from mp [OF conjunct2 [OF T [where s = ?s and w = 2]] p]
  obtain s' where "disconnect 2 ?s = (Inr (), s')"
    and "active_connections s' = remove1 2 (active_connections ?s)"
    by (elim exE conjE) (rule that)
  then have "disconnect 2 ?s = (Inr (), s') \<and> active_connections s' = [1, 3]" by simp
  then have two: "\<exists>s'. disconnect 2 ?s = (Inr (), s') \<and> active_connections s' = [1, 3]"
    by - (rule exI, assumption)
  from a one p two show ?thesis by (intro conjI)
qed

text \<open>
  Claim C10 fails as stated. Registering the same handle twice does not yield two
  occurrences: the second \<open>connect\<close> raises \<open>RuntimeError\<close> in \<open>accept\<close>, before
  the append, and the registry holds the handle once.
\<close>

theorem second_connect_raises_and_adds_nothing:
  "connect Transport_ok 7 (snd (connect Transport_ok 7 initial))
     = (Inl RuntimeError, snd (connect Transport_ok 7 initial))
   \<and> active_connections (snd (connect Transport_ok 7 initial)) = [7]
   \<and> active_connections (snd (connect Transport_ok 7 (snd (connect Transport_ok 7 initial)))) = [7]"
  by (simp add: connect_def accept_def and_then_def initial_def)

text \<open>
  Claim C10, amended. The registry is a list: \<open>connect\<close> makes no membership test and
  appends at the end whenever \<open>accept\<close> returns, so the registry is in the order of
  registration; but \<open>accept\<close> returns only for an object that is still
  \<open>CONNECTING\<close>, so a second \<open>connect\<close> of a handle raises and adds nothing, and no
  registry that the handlers build from the start holds a handle twice. One
  \<open>disconnect\<close> takes away at most one occurrence. \<open>broadcast\<close> sends in list
  order: its sends are a prefix of the registry, and the whole registry when every handle
  is registered once and connected.
\<close>

theorem registry_is_a_list:
  "(application_state s w = CONNECTING \<longrightarrow>
       connect Transport_ok w s =
         (Inr (), s\<lparr>active_connections := active_connections s @ [w],
                    application_state := (application_state s)(w := CONNECTED)\<rparr>))
   \<and> connect h2 w (snd (connect h1 w s)) = (Inl RuntimeError, snd (connect h1 w s))
   \<and> count_list (active_connections (snd (connect h2 w (snd (connect h1 w s))))) w
       \<le> count_list (active_connections s) w + 1
   \<and> distinct (active_connections (run net evs initial))
   \<and> (application_state s w = CONNECTING \<and> application_state s w' = CONNECTING \<and> w \<noteq> w' \<longrightarrow>
        active_connections (snd (connect Transport_ok w' (snd (connect Transport_ok w s))))
          = active_connections s @ [w, w'])
   \<and> (\<exists>s'. disconnect w s = (Inr (), s')
          \<and> count_list (active_connections s) w \<le> count_list (active_connections s') w + 1
          \<and> length (active_connections s) \<le> length (active_connections s') + 1)
   \<and> prefix (recipients (new_sends s (snd (broadcast net m s)))) (active_connections s)
   \<and> (registry_ok s \<longrightarrow>
        recipients (new_sends s (snd (broadcast net m s))) = active_connections s)"
proof (intro conjI impI)
  assume "application_state s w = CONNECTING"
  then show "connect Transport_ok w s =
         (Inr (), s\<lparr>active_connections := active_connections s @ [w],
                    application_state := (application_state s)(w := CONNECTED)\<rparr>)"
    by (rule connect_new)
next
  have nc: "application_state (snd (connect h1 w s)) w \<noteq> CONNECTING"
    using connect_effect [of h1 w s] by blast
  then show again: "connect h2 w (snd (connect h1 w s)) = (Inl RuntimeError, snd (connect h1 w s))"
    by (rule connect_again)
  show "count_list (active_connections (snd (connect h2 w (snd (connect h1 w s))))) w
       \<le> count_list (active_connections s) w + 1"
    unfolding again
  proof (cases "application_state s w = CONNECTING")
    case True
    then show "count_list (active_connections (snd (Inl RuntimeError, snd (connect h1 w s)))) w
       \<le> count_list (active_connections s) w + 1"
      by (cases h1) (simp_all add: connect_new connect_refused)
  next
    case False
    then show "count_list (active_connections (snd (Inl RuntimeError, snd (connect h1 w s)))) w
       \<le> count_list (active_connections s) w + 1"
      by (simp add: connect_again)
  qed
next
  have "registry_ok (run net evs initial)"
    by (rule registry_ok_run [OF registry_ok_initial])
  then show "distinct (active_connections (run net evs initial))"
    by (simp add: registry_ok_def)
next
  assume "application_state s w = CONNECTING \<and> application_state s w' = CONNECTING \<and> w \<noteq> w'"
  then show "active_connections (snd (connect Transport_ok w' (snd (connect Transport_ok w s))))
          = active_connections s @ [w, w']"
    by (simp add: connect_new)
next
  show "\<exists>s'. disconnect w s = (Inr (), s')
          \<and> count_list (active_connections s) w \<le> count_list (active_connections s') w + 1
          \<and> length (active_connections s) \<le> length (active_connections s') + 1"
    by (auto simp add: disconnect_eq count_list_remove1 length_remove1)
next
  from broadcast_keeps [of net m s]
  show "prefix (recipients (new_sends s (snd (broadcast net m s)))) (active_connections s)"
    by (auto simp: new_sends_def)
next
  assume "registry_ok s"
  then show "recipients (new_sends s (snd (broadcast net m s))) = active_connections s"
    by (simp add: broadcast_ok new_sends_def recipients_pass)
qed

theorem registry_is_a_list_witness:
  "application_state initial 7 = CONNECTING
   \<and> active_connections (snd (connect Transport_ok 7 initial)) = [7]
   \<and> application_state initial 7 = CONNECTING \<and> application_state initial 8 = CONNECTING
   \<and> (7::nat) \<noteq> 8
   \<and> active_connections (snd (connect Transport_ok 8 (snd (connect Transport_ok 7 initial))))
       = [7, 8]
   \<and> registry_ok \<lparr>active_connections = [1, 2, 3], tasks = [],
                  application_state = all_connected, sent = []\<rparr>
   \<and> recipients (new_sends \<lparr>active_connections = [1, 2, 3], tasks = [],
                  application_state = all_connected, sent = []\<rparr>
        (snd (broadcast (peer_gone 1) ''x'' \<lparr>active_connections = [1, 2, 3], tasks = [],
                  application_state = all_connected, sent = []\<rparr>))) = [1, 2, 3]"
proof -
  let ?s = "\<lparr>active_connections = [1, 2, 3], tasks = [],
             application_state = all_connected, sent = []\<rparr>"
  note T = registry_is_a_list
  have c7: "application_state initial 7 = CONNECTING"
    and c8: "application_state initial 8 = CONNECTING"
    by (simp_all add: initial_def)
  have ne: "(7::nat) \<noteq> 8" by simp
  have ok: "registry_ok ?s" by (simp add: registry_ok_def all_connected_def)
  from mp [OF conjunct1 [OF T [where s = initial and w = 7]] c7]
  have one: "active_connections (snd (connect Transport_ok 7 initial)) = [7]"
    by (simp add: initial_def)
  note five = T [where s = initial and w = 7 and w' = 8, THEN conjunct2, THEN conjunct2,
      THEN conjunct2, THEN conjunct2, THEN conjunct1]
  from five
  have "application_state initial 7 = CONNECTING \<and> application_state initial 8 = CONNECTING
          \<and> (7::nat) \<noteq> 8 \<longrightarrow>
        active_connections (snd (connect Transport_ok 8 (snd (connect Transport_ok 7 initial))))
          = active_connections initial @ [7, 8]" .
  with c7 c8 ne
  have two: "active_connections (snd (connect Transport_ok 8 (snd (connect Transport_ok 7 initial))))
       = [7, 8]"
    by (simp add: initial_def)
  note eight = T [where s = ?s and net = "peer_gone 1" and m = "''x''", THEN conjunct2,
      THEN conjunct2, THEN conjunct2, THEN conjunct2, THEN conjunct2, THEN conjunct2,
      THEN conjunct2]
  from eight
  have "registry_ok ?s \<longrightarrow>
        recipients (new_sends ?s (snd (broadcast (peer_gone 1) ''x'' ?s))) = active_connections ?s" .
  with ok have three: "recipients (new_sends ?s (snd (broadcast (peer_gone 1) ''x'' ?s))) = [1, 2, 3]"
    by simp
  from c7 one c8 ne two ok three show ?thesis by (intro conjI)
qed

end
